theory Spec2Isabelle
  imports Main "HOL-Library.Sublist"
begin

section \<open>Python values and string primitives used by clock.py\<close>

text \<open>
  Python strings are modelled as \<^typ>\<open>string\<close>; a character stands for the code point of
  the same number (0 to 255). The string methods below are exact on ASCII text, which is
  what the program produces itself (\<open>strftime\<close>, \<open>f"{h:02d}"\<close>); \<open>str.upper\<close> leaves
  characters above 127 unchanged.
\<close>

datatype exn =
    ValueError | TypeError | AttributeError | IndexError | KeyError | OSError
  | JSONDecodeError | RecursionError
  | Unrepresentable \<comment> \<open>not a Python exception: a string with a code point above 255\<close>

definition ord :: "char \<Rightarrow> nat" where
  "ord c = of_char c"

definition isspace :: "char \<Rightarrow> bool" where
  "isspace c = ((9 \<le> ord c \<and> ord c \<le> 13) \<or> (28 \<le> ord c \<and> ord c \<le> 32) \<or> ord c = 133 \<or> ord c = 160)"

definition isdigit :: "char \<Rightarrow> bool" where
  "isdigit c = (48 \<le> ord c \<and> ord c \<le> 57)"

definition digit_val :: "char \<Rightarrow> nat" where
  "digit_val c = ord c - 48"

definition digit_char :: "nat \<Rightarrow> char" where
  "digit_char n = char_of (48 + n)"

definition strip :: "string \<Rightarrow> string" where
  "strip s = rev (dropWhile isspace (rev (dropWhile isspace s)))"

definition upper_char :: "char \<Rightarrow> char" where
  "upper_char c = (if 97 \<le> ord c \<and> ord c \<le> 122 then char_of (ord c - 32) else c)"

definition upper :: "string \<Rightarrow> string" where
  "upper s = map upper_char s"

definition startswith :: "string \<Rightarrow> string \<Rightarrow> bool" where
  "startswith s p = prefix p s"

text \<open>
  \<open>int(s)\<close> for a string: surrounding whitespace is dropped, one sign is allowed, then
  decimal digits, where a single underscore may stand between two digits. Anything else
  raises \<open>ValueError\<close>, and so does a literal of more than \<open>int_max_str_digits\<close> digits
  (CPython's default limit).
\<close>

definition int_max_str_digits :: nat where
  "int_max_str_digits = 4300"

fun digit_run :: "nat \<Rightarrow> string \<Rightarrow> nat option" where
  "digit_run acc [] = Some acc"
| "digit_run acc (c # cs) =
     (if isdigit c then digit_run (acc * 10 + digit_val c) cs
      else if c = CHR ''_'' then
        (case cs of
           [] \<Rightarrow> None
         | d # ds \<Rightarrow> if isdigit d then digit_run (acc * 10 + digit_val d) ds else None)
      else None)"

definition py_int_unsigned :: "string \<Rightarrow> exn + nat" where
  "py_int_unsigned body =
     (case body of
        [] \<Rightarrow> Inl ValueError
      | d # ds \<Rightarrow>
          if \<not> isdigit d then Inl ValueError
          else if length (filter isdigit body) > int_max_str_digits then Inl ValueError
          else (case digit_run (digit_val d) ds of None \<Rightarrow> Inl ValueError | Some n \<Rightarrow> Inr n))"

definition py_int :: "string \<Rightarrow> exn + int" where
  "py_int s =
     (case strip s of
        [] \<Rightarrow> Inl ValueError
      | c # cs \<Rightarrow>
          if c = CHR ''-'' then map_sum id (\<lambda>n. - int n) (py_int_unsigned cs)
          else if c = CHR ''+'' then map_sum id int (py_int_unsigned cs)
          else map_sum id int (py_int_unsigned (c # cs)))"

text \<open>\<open>f"{n:02d}"\<close>: decimal, zero-padded to width two, the sign counted in the width.\<close>

fun dec :: "nat \<Rightarrow> string" where
  "dec n = (if n < 10 then [digit_char n] else dec (n div 10) @ [digit_char (n mod 10)])"

declare dec.simps [simp del]

definition fmt_02d :: "int \<Rightarrow> string" where
  "fmt_02d n =
     (if n < 0 then CHR ''-'' # dec (nat (- n))
      else replicate (2 - length (dec (nat n))) (CHR ''0'') @ dec (nat n))"

section \<open>normalize_time\<close>

definition normalize_time :: "string \<Rightarrow> string \<Rightarrow> string \<Rightarrow> string \<times> string \<times> string \<times> string" where
  "normalize_time hour_str min_str ampm_str =
     (let h = (case py_int hour_str of Inl e \<Rightarrow> 7 | Inr n \<Rightarrow> n);
          m = (case py_int min_str of Inl e \<Rightarrow> 0 | Inr n \<Rightarrow> n);
          h = max 1 (min 12 h);
          m = max 0 (min 59 m);
          ampm = (if upper (strip ampm_str) \<noteq> ''PM'' then ''AM'' else ''PM'')
      in (fmt_02d h, fmt_02d m, ampm, fmt_02d h @ '':'' @ fmt_02d m @ '' '' @ ampm))"

section \<open>JSON values, \<open>json.load\<close> and \<open>json.dump\<close>\<close>

text \<open>
  What \<open>json.load\<close> can return. A float is kept as its lexeme: the program only tests
  it for truth and compares it with strings.
\<close>

datatype json =
    JNull | JBool bool | JInt int | JFloat string | JStr string
  | JList "json list" | JDict "(string \<times> json) list"

text \<open>Truth value of a Python object, as \<open>if\<close>, \<open>and\<close> and \<open>not\<close> test it.\<close>

fun truthy :: "json \<Rightarrow> bool" where
  "truthy JNull = False"
| "truthy (JBool b) = b"
| "truthy (JInt n) = (n \<noteq> 0)"
| "truthy (JFloat lx) =
     (lx = ''NaN'' \<or> lx = ''Infinity'' \<or> lx = ''-Infinity''
      \<or> list_ex (\<lambda>c. 49 \<le> ord c \<and> ord c \<le> 57) (takeWhile (\<lambda>c. c \<noteq> CHR ''e'' \<and> c \<noteq> CHR ''E'') lx))"
| "truthy (JStr s) = (s \<noteq> [])"
| "truthy (JList xs) = (xs \<noteq> [])"
| "truthy (JDict d) = (d \<noteq> [])"

text \<open>\<open>d[k] = v\<close> on an insertion-ordered dict: a present key keeps its place.\<close>

fun dict_set :: "(string \<times> 'v) list \<Rightarrow> string \<Rightarrow> 'v \<Rightarrow> (string \<times> 'v) list" where
  "dict_set [] k v = [(k, v)]"
| "dict_set (p # ps) k v = (if fst p = k then (k, v) # ps else p # dict_set ps k v)"

definition DQUOTE :: char where "DQUOTE = CHR 0x22"
definition BACKSLASH :: char where "BACKSLASH = CHR 0x5C"
definition NEWLINE :: char where "NEWLINE = CHR 0x0A"

subsection \<open>Decoding\<close>

definition json_ws :: "char \<Rightarrow> bool" where
  "json_ws c = (c = CHR '' '' \<or> c = CHR 0x09 \<or> c = CHR 0x0A \<or> c = CHR 0x0D)"

definition skip_ws :: "string \<Rightarrow> string" where
  "skip_ws s = dropWhile json_ws s"

definition hex_val :: "char \<Rightarrow> nat option" where
  "hex_val c =
     (if 48 \<le> ord c \<and> ord c \<le> 57 then Some (ord c - 48)
      else if 97 \<le> ord c \<and> ord c \<le> 102 then Some (ord c - 87)
      else if 65 \<le> ord c \<and> ord c \<le> 70 then Some (ord c - 55)
      else None)"

definition hex4 :: "char \<Rightarrow> char \<Rightarrow> char \<Rightarrow> char \<Rightarrow> nat option" where
  "hex4 a b c d =
     (case (hex_val a, hex_val b, hex_val c, hex_val d) of
        (Some w, Some x, Some y, Some z) \<Rightarrow> Some (((w * 16 + x) * 16 + y) * 16 + z)
      | _ \<Rightarrow> None)"

definition unescape :: "char \<Rightarrow> char option" where
  "unescape e =
     (if e = DQUOTE then Some DQUOTE
      else if e = BACKSLASH then Some BACKSLASH
      else if e = CHR ''/'' then Some (CHR ''/'')
      else if e = CHR ''b'' then Some (CHR 0x08)
      else if e = CHR ''f'' then Some (CHR 0x0C)
      else if e = CHR ''n'' then Some (CHR 0x0A)
      else if e = CHR ''r'' then Some (CHR 0x0D)
      else if e = CHR ''t'' then Some (CHR 0x09)
      else None)"

definition cons_result :: "char \<Rightarrow> exn + (string \<times> string) \<Rightarrow> exn + (string \<times> string)" where
  "cons_result c r = (case r of Inl e \<Rightarrow> Inl e | Inr (s, rest) \<Rightarrow> Inr (c # s, rest))"

text \<open>
  What follows a backslash inside a string: the character it stands for and the text left.
  \<open>\uXXXX\<close> takes four hexadecimal digits.
\<close>

definition scan_escape :: "string \<Rightarrow> exn + (char \<times> string)" where
  "scan_escape cs =
     (case cs of
        [] \<Rightarrow> Inl JSONDecodeError
      | e # es \<Rightarrow>
          if e = CHR ''u'' then
            (case es of
               h1 # h2 # h3 # h4 # rest \<Rightarrow>
                 (case hex4 h1 h2 h3 h4 of
                    None \<Rightarrow> Inl JSONDecodeError
                  | Some n \<Rightarrow> if n < 256 then Inr (char_of n, rest) else Inl Unrepresentable)
             | _ \<Rightarrow> Inl JSONDecodeError)
          else
            (case unescape e of
               None \<Rightarrow> Inl JSONDecodeError
             | Some ch \<Rightarrow> Inr (ch, es)))"

lemma scan_escape_shorter: "scan_escape cs = Inr (ch, rest) \<Longrightarrow> length rest < length cs"
  by (auto simp: scan_escape_def split: list.splits if_splits option.splits)

text \<open>
  The body of a string, after its opening quote, up to the closing one (strict mode: a raw
  control character is an error). The result is the decoded string and the text left.
\<close>

function scanstring :: "string \<Rightarrow> exn + (string \<times> string)" where
  "scanstring [] = Inl JSONDecodeError"
| "scanstring (c # cs) =
     (if c = DQUOTE then Inr ([], cs)
      else if c = BACKSLASH then
        (case scan_escape cs of
           Inl e \<Rightarrow> Inl e
         | Inr (ch, rest) \<Rightarrow> cons_result ch (scanstring rest))
      else if ord c < 32 then Inl JSONDecodeError
      else cons_result c (scanstring cs))"
  by pat_completeness auto

termination scanstring
  by (relation "measure length") (auto dest: scan_escape_shorter)

definition digits_val :: "string \<Rightarrow> nat" where
  "digits_val ds = foldl (\<lambda>a c. a * 10 + digit_val c) 0 ds"

text \<open>
  A number: \<open>-?(0|[1-9][0-9]*)(\.[0-9]+)?([eE][-+]?[0-9]+)?\<close>, the longest match. Each part
  returns its lexeme and the text left; an exponent without digits is not taken. Without
  fraction and exponent the number is an \<open>int\<close>.
\<close>

definition scan_int :: "char \<Rightarrow> string \<Rightarrow> string \<times> string" where
  "scan_int d ds =
     (if d = CHR ''0'' then ([d], ds) else (d # takeWhile isdigit ds, dropWhile isdigit ds))"

definition scan_frac :: "string \<Rightarrow> string \<times> string" where
  "scan_frac r =
     (case r of
        p # f # fs \<Rightarrow>
          if p = CHR ''.'' \<and> isdigit f then (p # f # takeWhile isdigit fs, dropWhile isdigit fs)
          else ([], r)
      | _ \<Rightarrow> ([], r))"

definition scan_exp :: "string \<Rightarrow> string \<times> string" where
  "scan_exp r =
     (case r of
        [] \<Rightarrow> ([], r)
      | e # es \<Rightarrow>
          if e = CHR ''e'' \<or> e = CHR ''E'' then
            (let (sg, es') = (case es of
                               [] \<Rightarrow> ([], [])
                             | x # xs \<Rightarrow>
                                 if x = CHR ''+'' \<or> x = CHR ''-'' then ([x], xs) else ([], es))
             in if takeWhile isdigit es' = [] then ([], r)
                else (e # sg @ takeWhile isdigit es', dropWhile isdigit es'))
          else ([], r))"

definition match_number :: "string \<Rightarrow> exn + (json \<times> string)" where
  "match_number s =
     (let (sign, s1) = (case s of [] \<Rightarrow> ([], []) | c # cs \<Rightarrow> if c = CHR ''-'' then (''-'', cs) else ([], s))
      in case s1 of
           [] \<Rightarrow> Inl JSONDecodeError
         | d # ds \<Rightarrow>
             if \<not> isdigit d then Inl JSONDecodeError
             else
               let (ip, r1) = scan_int d ds;
                   (fp, r2) = scan_frac r1;
                   (ep, r3) = scan_exp r2
               in if fp = [] \<and> ep = [] then
                    (if length ip > int_max_str_digits then Inl ValueError
                     else Inr (JInt (if sign = [] then int (digits_val ip) else - int (digits_val ip)), r3))
                  else Inr (JFloat (sign @ ip @ fp @ ep), r3))"

text \<open>
  The scanner. Every call spends one unit of fuel, so the functions are total; \<open>json_loads\<close>
  starts with more than twice as much fuel as the text has characters, which is never used
  up (\<open>json_loads_fuel\<close> below). \<open>parse_object\<close> starts at the quote of the next key,
  \<open>parse_array\<close> at the next element. The recursion limit of the interpreter is not
  modelled.
\<close>

fun scan_once :: "nat \<Rightarrow> string \<Rightarrow> exn + (json \<times> string)"
  and parse_object :: "nat \<Rightarrow> (string \<times> json) list \<Rightarrow> string \<Rightarrow> exn + (json \<times> string)"
  and parse_array :: "nat \<Rightarrow> json list \<Rightarrow> string \<Rightarrow> exn + (json \<times> string)"
where
  "scan_once 0 s = Inl RecursionError"
| "scan_once (Suc n) s =
     (case s of
        [] \<Rightarrow> Inl JSONDecodeError
      | c # cs \<Rightarrow>
          if c = DQUOTE then
            (case scanstring cs of Inl e \<Rightarrow> Inl e | Inr (str, rest) \<Rightarrow> Inr (JStr str, rest))
          else if c = CHR ''{'' then
            (case skip_ws cs of
               [] \<Rightarrow> Inl JSONDecodeError
             | x # xs \<Rightarrow> if x = CHR ''}'' then Inr (JDict [], xs) else parse_object n [] (x # xs))
          else if c = CHR ''['' then
            (case skip_ws cs of
               [] \<Rightarrow> Inl JSONDecodeError
             | x # xs \<Rightarrow> if x = CHR '']'' then Inr (JList [], xs) else parse_array n [] (x # xs))
          else if startswith s ''null'' then Inr (JNull, drop 4 s)
          else if startswith s ''true'' then Inr (JBool True, drop 4 s)
          else if startswith s ''false'' then Inr (JBool False, drop 5 s)
          else if startswith s ''NaN'' then Inr (JFloat ''NaN'', drop 3 s)
          else if startswith s ''Infinity'' then Inr (JFloat ''Infinity'', drop 8 s)
          else if startswith s ''-Infinity'' then Inr (JFloat ''-Infinity'', drop 9 s)
          else match_number s)"
| "parse_object 0 acc s = Inl RecursionError"
| "parse_object (Suc n) acc s =
     (case s of
        [] \<Rightarrow> Inl JSONDecodeError
      | q # cs \<Rightarrow>
          if q \<noteq> DQUOTE then Inl JSONDecodeError
          else
            (case scanstring cs of
               Inl e \<Rightarrow> Inl e
             | Inr (key, r1) \<Rightarrow>
                 (case skip_ws r1 of
                    [] \<Rightarrow> Inl JSONDecodeError
                  | colon # r2 \<Rightarrow>
                      if colon \<noteq> CHR '':'' then Inl JSONDecodeError
                      else
                        (case scan_once n (skip_ws r2) of
                           Inl e \<Rightarrow> Inl e
                         | Inr (v, r3) \<Rightarrow>
                             (case skip_ws r3 of
                                [] \<Rightarrow> Inl JSONDecodeError
                              | x # r4 \<Rightarrow>
                                  if x = CHR ''}'' then Inr (JDict (dict_set acc key v), r4)
                                  else if x = CHR '','' then
                                    parse_object n (dict_set acc key v) (skip_ws r4)
                                  else Inl JSONDecodeError)))))"
| "parse_array 0 acc s = Inl RecursionError"
| "parse_array (Suc n) acc s =
     (case scan_once n s of
        Inl e \<Rightarrow> Inl e
      | Inr (v, r1) \<Rightarrow>
          (case skip_ws r1 of
             [] \<Rightarrow> Inl JSONDecodeError
           | x # r2 \<Rightarrow>
               if x = CHR '']'' then Inr (JList (acc @ [v]), r2)
               else if x = CHR '','' then parse_array n (acc @ [v]) (skip_ws r2)
               else Inl JSONDecodeError))"

definition json_loads :: "string \<Rightarrow> exn + json" where
  "json_loads s =
     (case scan_once (Suc (2 * length s)) (skip_ws s) of
        Inl e \<Rightarrow> Inl e
      | Inr (v, rest) \<Rightarrow> if skip_ws rest = [] then Inr v else Inl JSONDecodeError)"

subsection \<open>Encoding\<close>

text \<open>
  \<open>json.dump(obj, f, indent=2)\<close> for the one kind of object the program writes: a dict
  whose keys and values are strings (the pairs in insertion order). With the default
  \<open>ensure_ascii\<close>, every character outside \<open>' '..'~'\<close> is escaped.
\<close>

definition hex_digit :: "nat \<Rightarrow> char" where
  "hex_digit n = (if n < 10 then char_of (48 + n) else char_of (87 + n))"

definition escape_char :: "char \<Rightarrow> string" where
  "escape_char c =
     (if c = DQUOTE then [BACKSLASH, DQUOTE]
      else if c = BACKSLASH then [BACKSLASH, BACKSLASH]
      else if c = CHR 0x0A then [BACKSLASH, CHR ''n'']
      else if c = CHR 0x0D then [BACKSLASH, CHR ''r'']
      else if c = CHR 0x09 then [BACKSLASH, CHR ''t'']
      else if c = CHR 0x08 then [BACKSLASH, CHR ''b'']
      else if c = CHR 0x0C then [BACKSLASH, CHR ''f'']
      else if 32 \<le> ord c \<and> ord c \<le> 126 then [c]
      else [BACKSLASH, CHR ''u'', CHR ''0'', CHR ''0'', hex_digit (ord c div 16), hex_digit (ord c mod 16)])"

definition encode_str :: "string \<Rightarrow> string" where
  "encode_str s = DQUOTE # concat (map escape_char s) @ [DQUOTE]"

fun encode_items :: "bool \<Rightarrow> (string \<times> string) list \<Rightarrow> string" where
  "encode_items first [] = []"
| "encode_items first ((k, v) # kvs) =
     (if first then [] else '','' @ [NEWLINE] @ ''  '')
     @ encode_str k @ '': '' @ encode_str v @ encode_items False kvs"

definition json_dumps :: "(string \<times> string) list \<Rightarrow> string" where
  "json_dumps dct =
     (if dct = [] then ''{}''
      else ''{'' @ [NEWLINE] @ ''  '' @ encode_items True dct @ [NEWLINE] @ ''}'')"

text \<open>A dict of strings as the value \<open>json.load\<close> gives back for it.\<close>

definition str_dict :: "(string \<times> string) list \<Rightarrow> json" where
  "str_dict dct = JDict (map (\<lambda>(k, v). (k, JStr v)) dct)"


section \<open>The environment of the program\<close>

subsection \<open>The settings file\<close>

text \<open>
  What is at \<open>ALARM_FILE\<close>: nothing, something that cannot be opened or decoded as
  UTF-8 text, or a text.
\<close>

datatype file_state = Missing | Unreadable | Text string

definition file_exists :: "file_state \<Rightarrow> bool" where
  "file_exists f = (f \<noteq> Missing)"

definition read_text :: "file_state \<Rightarrow> exn + string" where
  "read_text f = (case f of Missing \<Rightarrow> Inl OSError | Unreadable \<Rightarrow> Inl OSError | Text s \<Rightarrow> Inr s)"

subsection \<open>The wall clock\<close>

record datetime =
  dt_hour :: nat
  dt_minute :: nat

definition strftime_I :: "datetime \<Rightarrow> string" where
  "strftime_I d = fmt_02d (int (if dt_hour d mod 12 = 0 then 12 else dt_hour d mod 12))"

definition strftime_M :: "datetime \<Rightarrow> string" where
  "strftime_M d = fmt_02d (int (dt_minute d))"

definition strftime_p :: "datetime \<Rightarrow> string" where
  "strftime_p d = (if dt_hour d < 12 then ''AM'' else ''PM'')"

subsection \<open>Process constants, \<open>os.path\<close>, the file system and the mixer\<close>

text \<open>
  The program does not fix its platform: \<open>os.path\<close> is a parameter, and so are the
  constants computed at start-up (\<open>MUSIC_DIR\<close>, \<open>SCRIPT_DIR\<close>, \<open>AUDIO_OK\<close>). The rest of
  the record is what the outside world answers at one moment: which paths exist, whether
  the mixer can load and play a file, the wall clock and \<open>time.time()\<close>.
\<close>

record env =
  os_isabs :: "string \<Rightarrow> bool"
  os_join :: "string \<Rightarrow> string \<Rightarrow> string"
  os_abspath :: "string \<Rightarrow> string"
  os_basename :: "string \<Rightarrow> string"
  MUSIC_DIR :: string
  SCRIPT_DIR :: string
  AUDIO_OK :: bool
  path_exists :: "string \<Rightarrow> bool"
  music_load_ok :: "string \<Rightarrow> bool"
  music_play_ok :: "string \<Rightarrow> bool"
  now :: datetime
  time_time :: int

subsection \<open>\<open>posixpath\<close>, one instance of \<open>os.path\<close>\<close>

definition posix_isabs :: "string \<Rightarrow> bool" where
  "posix_isabs p = startswith p ''/''"

definition posix_join :: "string \<Rightarrow> string \<Rightarrow> string" where
  "posix_join a b =
     (if startswith b ''/'' then b
      else if a = [] \<or> last a = CHR ''/'' then a @ b
      else a @ ''/'' @ b)"

fun split_on :: "char \<Rightarrow> string \<Rightarrow> string list" where
  "split_on sep [] = [[]]"
| "split_on sep (c # cs) =
     (if c = sep then [] # split_on sep cs
      else (case split_on sep cs of [] \<Rightarrow> [[c]] | w # ws \<Rightarrow> (c # w) # ws))"

fun join_with :: "string \<Rightarrow> string list \<Rightarrow> string" where
  "join_with sep [] = []"
| "join_with sep [w] = w"
| "join_with sep (w # ws) = w @ sep @ join_with sep ws"

text \<open>One round of the loop of \<open>normpath\<close>; \<open>new_comps\<close> is kept with its last element first.\<close>

definition normpath_step :: "bool \<Rightarrow> string list \<Rightarrow> string \<Rightarrow> string list" where
  "normpath_step initial_slashes new_comps c =
     (if c = [] \<or> c = ''.'' then new_comps
      else if c \<noteq> ''..'' \<or> (\<not> initial_slashes \<and> new_comps = [])
              \<or> (new_comps \<noteq> [] \<and> hd new_comps = ''..'')
        then c # new_comps
      else if new_comps \<noteq> [] then tl new_comps
      else new_comps)"

definition posix_normpath :: "string \<Rightarrow> string" where
  "posix_normpath path =
     (if path = [] then ''.''
      else
        let initial_slashes =
              (if startswith path ''/''
               then (if startswith path ''//'' \<and> \<not> startswith path ''///'' then 2 else 1)
               else (0::nat));
            comps = rev (foldl (normpath_step (initial_slashes \<noteq> 0)) [] (split_on (CHR ''/'') path));
            p = replicate initial_slashes (CHR ''/'') @ join_with ''/'' comps
        in if p = [] then ''.'' else p)"

definition posix_abspath :: "string \<Rightarrow> string \<Rightarrow> string" where
  "posix_abspath cwd path =
     posix_normpath (if posix_isabs path then path else posix_join cwd path)"

definition posix_basename :: "string \<Rightarrow> string" where
  "posix_basename p = rev (takeWhile (\<lambda>c. c \<noteq> CHR ''/'') (rev p))"

section \<open>Program state and observable effects\<close>

text \<open>
  \<open>RINGING\<close> and \<open>STOPPED_THIS_MINUTE\<close> are the globals; \<open>last_minute_seen\<close> and
  \<open>last_log\<close> are the locals of \<open>alarm_checker\<close>, which live as long as its loop;
  \<open>alarm_file\<close> is the content of \<open>ALARM_FILE\<close>. Each function returns the new state and
  the list of what it did, in order: lock operations, accesses to the two globals, calls of
  the mixer that returned normally, printed lines and sleeps. The checker and the handlers
  are interleaved at the grain of one tick or one request.
\<close>

record state =
  RINGING :: bool
  STOPPED_THIS_MINUTE :: "string option"
  last_minute_seen :: "string option"
  last_log :: int
  alarm_file :: file_state

datatype shared = V_RINGING | V_STOPPED_THIS_MINUTE

datatype message =
    Msg_audio_not_initialized
  | Msg_ringing string
  | Msg_failed_to_play
  | Msg_alarm_stopped "string option"
  | Msg_status string json bool
  | Msg_ringtone_not_found json
  | Msg_checker_error exn

datatype effect =
    Acquire | Release | Rd shared | Wr shared
  | Music_load string | Music_play_loop string | Music_stop
  | Print message | Sleep nat

definition initial_state :: "file_state \<Rightarrow> state" where
  "initial_state f =
     \<lparr>RINGING = False, STOPPED_THIS_MINUTE = None, last_minute_seen = None, last_log = 0,
      alarm_file = f\<rparr>"


section \<open>The functions of clock.py\<close>

subsection \<open>load_alarm, save_alarm_obj\<close>

definition load_alarm :: "file_state \<Rightarrow> exn + json" where
  "load_alarm f =
     (if \<not> file_exists f then Inr (JDict [])
      else
        (case (case read_text f of Inl e \<Rightarrow> Inl e | Inr s \<Rightarrow> json_loads s) of
           Inl e \<Rightarrow> Inr (JDict [])
         | Inr v \<Rightarrow> Inr v))"

text \<open>
  \<open>open(ALARM_FILE, "w")\<close> is taken to succeed: the function has no handler of its own,
  and a settings file that cannot be written is outside this model.
\<close>

definition save_alarm_obj :: "(string \<times> string) list \<Rightarrow> state \<Rightarrow> state" where
  "save_alarm_obj obj st = st\<lparr>alarm_file := Text (json_dumps obj)\<rparr>"

subsection \<open>current_h_m_ampm\<close>

definition current_h_m_ampm :: "env \<Rightarrow> string \<times> string \<times> string" where
  "current_h_m_ampm env = (strftime_I (now env), strftime_M (now env), strftime_p (now env))"

subsection \<open>play_loop, stop_playback\<close>

definition play_loop :: "env \<Rightarrow> string \<Rightarrow> state \<Rightarrow> state \<times> effect list" where
  "play_loop env path st =
     (if \<not> AUDIO_OK env then (st, [Print Msg_audio_not_initialized])
      else if \<not> music_load_ok env path then
        (st\<lparr>RINGING := False\<rparr>, [Print Msg_failed_to_play, Acquire, Wr V_RINGING, Release])
      else if \<not> music_play_ok env path then
        (st\<lparr>RINGING := False\<rparr>,
         [Music_load path, Print Msg_failed_to_play, Acquire, Wr V_RINGING, Release])
      else
        (st\<lparr>RINGING := True\<rparr>,
         [Music_load path, Music_play_loop path, Acquire, Wr V_RINGING, Release,
          Print (Msg_ringing path)]))"

definition stop_playback :: "env \<Rightarrow> state \<Rightarrow> state \<times> effect list" where
  "stop_playback env st =
     (let stamp = strftime_I (now env) @ '':'' @ strftime_M (now env) @ '' '' @ strftime_p (now env);
          st' = st\<lparr>RINGING := False, STOPPED_THIS_MINUTE := Some stamp\<rparr>
      in (st',
          [Acquire, Rd V_RINGING]
          @ (if RINGING st \<and> AUDIO_OK env then [Music_stop] else [])
          @ [Wr V_RINGING, Wr V_STOPPED_THIS_MINUTE, Release,
             Rd V_STOPPED_THIS_MINUTE, Print (Msg_alarm_stopped (STOPPED_THIS_MINUTE st'))]))"

subsection \<open>resolve_tone_path\<close>

fun first_existing :: "env \<Rightarrow> string list \<Rightarrow> string option" where
  "first_existing env [] = None"
| "first_existing env (p # ps) =
     (if path_exists env p then Some (os_abspath env p) else first_existing env ps)"

text \<open>
  The argument is whatever the caller has: a string from the query, or the value stored
  under \<open>ringtone\<close>. A true value that is not a string makes \<open>os.path.isabs\<close> raise.
\<close>

definition resolve_tone_path :: "env \<Rightarrow> json \<Rightarrow> exn + string option" where
  "resolve_tone_path env tone_path =
     (if \<not> truthy tone_path then Inr None
      else
        (case tone_path of
           JStr tp \<Rightarrow>
             (let candidates = [];
                  candidates = (if os_isabs env tp then candidates @ [tp] else candidates);
                  candidates = candidates @ [os_join env (MUSIC_DIR env) tp];
                  candidates = candidates @ [os_join env (SCRIPT_DIR env) tp];
                  candidates = (if startswith tp (MUSIC_DIR env) then tp # candidates else candidates)
              in Inr (first_existing env candidates))
         | _ \<Rightarrow> Inl TypeError))"

subsection \<open>alarm_checker\<close>

definition dict_get :: "json \<Rightarrow> string \<Rightarrow> exn + json" where
  "dict_get obj key =
     (case obj of
        JDict d \<Rightarrow> Inr (case map_of d key of None \<Rightarrow> JNull | Some v \<Rightarrow> v)
      | _ \<Rightarrow> Inl AttributeError)"

definition dict_item :: "json \<Rightarrow> string \<Rightarrow> exn + json" where
  "dict_item obj key =
     (case obj of
        JDict d \<Rightarrow> (case map_of d key of None \<Rightarrow> Inl KeyError | Some v \<Rightarrow> Inr v)
      | _ \<Rightarrow> Inl TypeError)"

text \<open>The test of line 149: all four fields present and true.\<close>

definition alarm_is_set :: "json \<Rightarrow> exn + bool" where
  "alarm_is_set alarm =
     (case dict_get alarm ''hour'' of Inl e \<Rightarrow> Inl e | Inr h \<Rightarrow>
        if \<not> truthy h then Inr False
        else (case dict_get alarm ''minute'' of Inl e \<Rightarrow> Inl e | Inr m \<Rightarrow>
          if \<not> truthy m then Inr False
          else (case dict_get alarm ''ampm'' of Inl e \<Rightarrow> Inl e | Inr a \<Rightarrow>
            if \<not> truthy a then Inr False
            else (case dict_get alarm ''ringtone'' of Inl e \<Rightarrow> Inl e | Inr r \<Rightarrow>
              Inr (truthy r)))))"

text \<open>Lines 166 to 170. Only a string has \<open>upper\<close>; \<open>and\<close> stops at the first false operand.\<close>

definition should_ring :: "json \<Rightarrow> string \<Rightarrow> string \<Rightarrow> string \<Rightarrow> exn + bool" where
  "should_ring alarm now_h now_m now_ap =
     (case dict_item alarm ''hour'' of Inl e \<Rightarrow> Inl e | Inr h \<Rightarrow>
        if h \<noteq> JStr now_h then Inr False
        else (case dict_item alarm ''minute'' of Inl e \<Rightarrow> Inl e | Inr m \<Rightarrow>
          if m \<noteq> JStr now_m then Inr False
          else (case dict_item alarm ''ampm'' of Inl e \<Rightarrow> Inl e | Inr a \<Rightarrow>
            (case a of
               JStr ap \<Rightarrow> Inr (upper ap = upper now_ap)
             | _ \<Rightarrow> Inl AttributeError))))"

text \<open>
  Lines 155 to 158: when the minute key differs from the one seen last, the suppression
  value is cleared under the lock and the key is remembered.
\<close>

definition minute_rollover :: "string \<Rightarrow> state \<Rightarrow> state \<times> effect list" where
  "minute_rollover current_minute_key st =
     (if last_minute_seen st \<noteq> Some current_minute_key
      then (st\<lparr>STOPPED_THIS_MINUTE := None, last_minute_seen := Some current_minute_key\<rparr>,
            [Acquire, Wr V_STOPPED_THIS_MINUTE, Release])
      else (st, []))"

text \<open>Lines 161 to 163: the status line, at most every 12 seconds (whole seconds here).\<close>

definition periodic_log :: "env \<Rightarrow> json \<Rightarrow> string \<Rightarrow> state \<Rightarrow> state \<times> effect list" where
  "periodic_log env alarm now_comp st =
     (if time_time env - last_log st > 12
      then (st\<lparr>last_log := time_time env\<rparr>,
            [Rd V_RINGING,
             Print (Msg_status now_comp
                      (case dict_get alarm ''time12'' of Inl e \<Rightarrow> JNull | Inr t \<Rightarrow> t)
                      (RINGING st))])
      else (st, []))"

text \<open>
  Lines 172 to 181: the two globals are read under the lock, then the decision is taken
  outside it. The result carries the exception that ended the round, if any.
\<close>

definition trigger ::
  "env \<Rightarrow> json \<Rightarrow> bool \<Rightarrow> string \<Rightarrow> state \<Rightarrow> exn option \<times> state \<times> effect list" where
  "trigger env alarm ring now_comp st =
     (let blocked_this_minute = (STOPPED_THIS_MINUTE st = Some now_comp);
          already_ringing = RINGING st;
          es = [Acquire, Rd V_STOPPED_THIS_MINUTE, Rd V_RINGING, Release]
      in if ring \<and> \<not> already_ringing \<and> \<not> blocked_this_minute then
           (case dict_get alarm ''ringtone'' of
              Inl e \<Rightarrow> (Some e, st, es)
            | Inr tone \<Rightarrow>
                (case resolve_tone_path env tone of
                   Inl e \<Rightarrow> (Some e, st, es)
                 | Inr None \<Rightarrow> (None, st, es @ [Print (Msg_ringtone_not_found tone)])
                 | Inr (Some tone_hit) \<Rightarrow>
                     if tone_hit = [] then (None, st, es @ [Print (Msg_ringtone_not_found tone)])
                     else (let (st', es') = play_loop env tone_hit st in (None, st', es @ es'))))
         else (None, st, es))"

text \<open>
  The body of the \<open>try\<close> of one round of the loop, up to \<open>time.sleep(1)\<close>: the exception
  that ended it, if any, the state and the effects so far.
\<close>

definition checker_body :: "env \<Rightarrow> state \<Rightarrow> exn option \<times> state \<times> effect list" where
  "checker_body env st =
     (case load_alarm (alarm_file st) of
        Inl e \<Rightarrow> (Some e, st, [])
      | Inr alarm \<Rightarrow>
        (case alarm_is_set alarm of
           Inl e \<Rightarrow> (Some e, st, [])
         | Inr False \<Rightarrow> (None, st, [])
         | Inr True \<Rightarrow>
             (let (now_h, now_m, now_ap) = current_h_m_ampm env;
                  now_comp = now_h @ '':'' @ now_m @ '' '' @ now_ap;
                  current_minute_key = now_h @ '':'' @ now_m;
                  (st1, es1) = minute_rollover current_minute_key st;
                  (st2, es2) = periodic_log env alarm now_comp st1
              in case should_ring alarm now_h now_m now_ap of
                   Inl e \<Rightarrow> (Some e, st2, es1 @ es2)
                 | Inr ring \<Rightarrow>
                     (let (err, st3, es3) = trigger env alarm ring now_comp st2
                      in (err, st3, es1 @ es2 @ es3)))))"

text \<open>One round of \<open>while True\<close>: the body, then the sleep of the branch taken.\<close>

definition alarm_checker :: "env \<Rightarrow> state \<Rightarrow> state \<times> effect list" where
  "alarm_checker env st =
     (case checker_body env st of
        (None, st', es) \<Rightarrow> (st', es @ [Sleep 1])
      | (Some e, st', es) \<Rightarrow> (st', es @ [Print (Msg_checker_error e), Sleep 2]))"

subsection \<open>Handler.do_GET: the branches \<open>/save\<close> and \<open>/stop\<close>\<close>

datatype page =
    Page_ringtone_not_found string string
  | Page_saved string string
  | Page_stopped

text \<open>\<open>params.get(name, [default])[0]\<close> on the result of \<open>parse_qs\<close>.\<close>

definition param :: "(string \<times> string list) list \<Rightarrow> string \<Rightarrow> string \<Rightarrow> exn + string" where
  "param params name dflt =
     (case (case map_of params name of None \<Rightarrow> [dflt] | Some vs \<Rightarrow> vs) of
        [] \<Rightarrow> Inl IndexError
      | v # vs \<Rightarrow> Inr v)"

definition do_GET_save ::
  "env \<Rightarrow> (string \<times> string list) list \<Rightarrow> state \<Rightarrow> exn + (state \<times> page)" where
  "do_GET_save env params st =
     (case param params ''hour'' ''07'' of Inl e \<Rightarrow> Inl e | Inr hour \<Rightarrow>
      case param params ''minute'' ''00'' of Inl e \<Rightarrow> Inl e | Inr minute \<Rightarrow>
      case param params ''ampm'' ''AM'' of Inl e \<Rightarrow> Inl e | Inr ampm \<Rightarrow>
      case param params ''ringtone'' [] of Inl e \<Rightarrow> Inl e | Inr ringtone \<Rightarrow>
        (let (H, M, AP, time12) = normalize_time hour minute ampm
         in case resolve_tone_path env (JStr ringtone) of
              Inl e \<Rightarrow> Inl e
            | Inr tone_hit \<Rightarrow>
                if tone_hit = None \<or> tone_hit = Some [] then
                  Inr (st, Page_ringtone_not_found
                             (if ringtone = [] then ''(empty)'' else ringtone) (MUSIC_DIR env))
                else
                  (let data = [(''hour'', H), (''minute'', M), (''ampm'', AP),
                               (''time12'', time12), (''ringtone'', the tone_hit)]
                   in Inr (save_alarm_obj data st,
                           Page_saved time12 (os_basename env (the tone_hit))))))"

definition do_GET_stop :: "env \<Rightarrow> state \<Rightarrow> (state \<times> effect list) \<times> page" where
  "do_GET_stop env st = (stop_playback env st, Page_stopped)"

text \<open>A run of the process: the checker's rounds and the requests, one after the other.\<close>

datatype action = Tick | Get_stop | Get_save "(string \<times> string list) list"

definition step :: "env \<times> action \<Rightarrow> state \<Rightarrow> state \<times> effect list" where
  "step ea st =
     (case ea of
        (env, Tick) \<Rightarrow> alarm_checker env st
      | (env, Get_stop) \<Rightarrow> fst (do_GET_stop env st)
      | (env, Get_save params) \<Rightarrow>
          (case do_GET_save env params st of Inl e \<Rightarrow> (st, []) | Inr (st', pg) \<Rightarrow> (st', [])))"

fun run :: "(env \<times> action) list \<Rightarrow> state \<Rightarrow> state" where
  "run [] st = st"
| "run (ea # eas) st = run eas (fst (step ea st))"


section \<open>An environment for the examples\<close>

text \<open>
  POSIX paths; the program lives in \<open>/app\<close>, which is also the working directory, and the
  music folder is \<open>/app/music\<close>. A path exists when its absolute form is one of \<open>files\<close>.
  The audio device is present and the mixer plays every file.
\<close>

definition posix_env :: "string list \<Rightarrow> nat \<Rightarrow> nat \<Rightarrow> int \<Rightarrow> env" where
  "posix_env files h m t =
     \<lparr>os_isabs = posix_isabs, os_join = posix_join, os_abspath = posix_abspath ''/app'',
      os_basename = posix_basename, MUSIC_DIR = ''/app/music'', SCRIPT_DIR = ''/app'',
      AUDIO_OK = True, path_exists = (\<lambda>p. posix_abspath ''/app'' p \<in> set files),
      music_load_ok = (\<lambda>p. True), music_play_ok = (\<lambda>p. True),
      now = \<lparr>dt_hour = h, dt_minute = m\<rparr>, time_time = t\<rparr>"

text \<open>The record that \<open>/save\<close> writes for 07:05 AM and \<open>/app/music/a.mp3\<close>.\<close>

definition alarm_0705 :: "(string \<times> string) list" where
  "alarm_0705 =
     [(''hour'', ''07''), (''minute'', ''05''), (''ampm'', ''AM''), (''time12'', ''07:05 AM''),
      (''ringtone'', ''/app/music/a.mp3'')]"


section \<open>Lock discipline of a list of effects\<close>

text \<open>
  Whether every access to \<open>RINGING\<close> or \<open>STOPPED_THIS_MINUTE\<close> in a list of effects falls
  between an \<open>Acquire\<close> and the next \<open>Release\<close>; the first argument says whether the lock
  is held at the start.
\<close>

fun lock_disciplined :: "bool \<Rightarrow> effect list \<Rightarrow> bool" where
  "lock_disciplined held [] = True"
| "lock_disciplined held (Acquire # es) = lock_disciplined True es"
| "lock_disciplined held (Release # es) = lock_disciplined False es"
| "lock_disciplined held (Rd v # es) = (held \<and> lock_disciplined held es)"
| "lock_disciplined held (Wr v # es) = (held \<and> lock_disciplined held es)"
| "lock_disciplined held (e # es) = lock_disciplined held es"


section \<open>Facts about the string primitives\<close>











section \<open>normalize_time clamps (C4)\<close>



section \<open>Decoding what was encoded\<close>

text \<open>
  \<open>json_loads\<close> gives back every dict of strings that \<open>json_dumps\<close> wrote: each escaped
  character is read back as itself, each member is read with two units of fuel, and the
  text is longer than the fuel it needs.
\<close>

lemma ord_less_256: "ord c < 256"
  by (simp add: ord_def)

lemma char_of_ord: "char_of (ord c) = c"
  by (simp add: ord_def)

lemma hex_val_hex_digit: "n < 16 \<Longrightarrow> hex_val (hex_digit n) = Some n"
  by (auto simp: hex_val_def hex_digit_def ord_def)

lemma hex4_00: "hex4 (CHR ''0'') (CHR ''0'') (hex_digit (ord c div 16)) (hex_digit (ord c mod 16)) = Some (ord c)"
proof -
  have "ord c div 16 < 16" using ord_less_256[of c] by simp
  moreover have "ord c mod 16 < 16" by simp
  moreover have "hex_val (CHR ''0'') = Some 0" by (simp add: hex_val_def ord_def)
  ultimately show ?thesis
    by (simp add: hex4_def hex_val_hex_digit)
qed

lemma scan_escape_simple:
  "scan_escape (DQUOTE # t) = Inr (DQUOTE, t)"
  "scan_escape (BACKSLASH # t) = Inr (BACKSLASH, t)"
  "scan_escape (CHR ''n'' # t) = Inr (CHR 0x0A, t)"
  "scan_escape (CHR ''r'' # t) = Inr (CHR 0x0D, t)"
  "scan_escape (CHR ''t'' # t) = Inr (CHR 0x09, t)"
  "scan_escape (CHR ''b'' # t) = Inr (CHR 0x08, t)"
  "scan_escape (CHR ''f'' # t) = Inr (CHR 0x0C, t)"
  by (simp_all add: scan_escape_def unescape_def DQUOTE_def BACKSLASH_def)

lemma scan_escape_u00:
  "scan_escape (CHR ''u'' # CHR ''0'' # CHR ''0'' # hex_digit (ord c div 16) # hex_digit (ord c mod 16) # t)
     = Inr (c, t)"
  using ord_less_256[of c] by (simp add: scan_escape_def hex4_00 char_of_ord)

lemma escape_char_short:
  "escape_char DQUOTE = [BACKSLASH, DQUOTE]"
  "escape_char BACKSLASH = [BACKSLASH, BACKSLASH]"
  "escape_char (CHR 0x0A) = [BACKSLASH, CHR ''n'']"
  "escape_char (CHR 0x0D) = [BACKSLASH, CHR ''r'']"
  "escape_char (CHR 0x09) = [BACKSLASH, CHR ''t'']"
  "escape_char (CHR 0x08) = [BACKSLASH, CHR ''b'']"
  "escape_char (CHR 0x0C) = [BACKSLASH, CHR ''f'']"
  by (simp_all add: escape_char_def DQUOTE_def BACKSLASH_def)

lemma scanstring_backslash:
  "scanstring (BACKSLASH # cs) =
     (case scan_escape cs of Inl e \<Rightarrow> Inl e | Inr (ch, rest) \<Rightarrow> cons_result ch (scanstring rest))"
  by (simp add: DQUOTE_def BACKSLASH_def)

lemma scanstring_escape_char:
  "scanstring (escape_char c @ tail) = cons_result c (scanstring tail)"
proof -
  consider "c = DQUOTE" | "c = BACKSLASH" | "c = CHR 0x0A" | "c = CHR 0x0D" | "c = CHR 0x09"
    | "c = CHR 0x08" | "c = CHR 0x0C"
    | "c \<noteq> DQUOTE" "c \<noteq> BACKSLASH" "32 \<le> ord c" "ord c \<le> 126"
    | "c \<noteq> DQUOTE" "c \<noteq> BACKSLASH" "c \<noteq> CHR 0x0A" "c \<noteq> CHR 0x0D" "c \<noteq> CHR 0x09"
      "c \<noteq> CHR 0x08" "c \<noteq> CHR 0x0C" "\<not> (32 \<le> ord c \<and> ord c \<le> 126)"
    by blast
  then show ?thesis
  proof cases
    case 8
    then have "escape_char c = [c]"
      by (auto simp: escape_char_def ord_def DQUOTE_def BACKSLASH_def)
    with 8 show ?thesis by simp
  next
    case 9
    then have "escape_char c = [BACKSLASH, CHR ''u'', CHR ''0'', CHR ''0'',
                                hex_digit (ord c div 16), hex_digit (ord c mod 16)]"
      by (simp add: escape_char_def)
    then show ?thesis
      by (simp add: scanstring_backslash scan_escape_u00 del: scanstring.simps)
  qed (simp_all add: escape_char_short scanstring_backslash scan_escape_simple del: scanstring.simps)
qed

lemma scanstring_escaped:
  "scanstring (concat (map escape_char s) @ DQUOTE # rest) = Inr (s, rest)"
  by (induction s) (simp_all add: scanstring_escape_char cons_result_def)

lemma encode_str_Cons: "encode_str s @ rest = DQUOTE # concat (map escape_char s) @ DQUOTE # rest"
  by (simp add: encode_str_def)

lemma scan_once_string:
  "scan_once (Suc n) (encode_str s @ rest) = Inr (JStr s, rest)"
  by (simp add: encode_str_Cons scanstring_escaped)

lemma json_ws_simps:
  "json_ws (CHR '' '')" "json_ws NEWLINE" "\<not> json_ws DQUOTE" "\<not> json_ws (CHR '':'')"
  "\<not> json_ws (CHR '','')" "\<not> json_ws (CHR ''}'')" "\<not> json_ws (CHR ''{'')"
  by (simp_all add: json_ws_def NEWLINE_def DQUOTE_def)

lemma dquote_simps:
  "DQUOTE \<noteq> CHR ''}''" "DQUOTE \<noteq> CHR ''{''" "DQUOTE \<noteq> CHR ''[''"
  by (simp_all add: DQUOTE_def)

lemma skip_ws_encode_str: "skip_ws (encode_str s @ rest) = encode_str s @ rest"
  by (simp add: skip_ws_def encode_str_def json_ws_simps)

lemma skip_ws_simps:
  "skip_ws (CHR '' '' # s) = skip_ws s" "skip_ws (NEWLINE # s) = skip_ws s"
  "skip_ws (DQUOTE # s) = DQUOTE # s" "skip_ws (CHR '':'' # s) = CHR '':'' # s"
  "skip_ws (CHR '','' # s) = CHR '','' # s" "skip_ws (CHR ''}'' # s) = CHR ''}'' # s"
  "skip_ws (CHR ''{'' # s) = CHR ''{'' # s" "skip_ws [] = []"
  by (simp_all add: skip_ws_def json_ws_simps)

lemma parse_object_member_last:
  "parse_object (Suc (Suc m)) acc (encode_str k @ '': '' @ encode_str v @ NEWLINE # CHR ''}'' # rest)
     = Inr (JDict (dict_set acc k (JStr v)), rest)"
  apply (subst parse_object.simps(2))
  apply (simp add: encode_str_Cons[of k] scanstring_escaped skip_ws_simps skip_ws_encode_str
           scan_once_string del: scan_once.simps parse_object.simps)
  done

lemma parse_object_member_more:
  "parse_object (Suc (Suc m)) acc
     (encode_str k @ '': '' @ encode_str v @ CHR '','' # NEWLINE # CHR '' '' # CHR '' '' # DQUOTE # tail)
     = parse_object (Suc m) (dict_set acc k (JStr v)) (DQUOTE # tail)"
  apply (subst parse_object.simps(2))
  apply (simp add: encode_str_Cons[of k] scanstring_escaped skip_ws_simps skip_ws_encode_str
           scan_once_string del: scan_once.simps parse_object.simps)
  done

lemma parse_object_items:
  "length kvs + 2 \<le> n \<Longrightarrow>
   parse_object n acc
     (encode_str k @ '': '' @ encode_str v @ encode_items False kvs @ NEWLINE # CHR ''}'' # rest)
   = Inr (JDict (fold (\<lambda>(k, v) d. dict_set d k (JStr v)) ((k, v) # kvs) acc), rest)"
proof (induction kvs arbitrary: n acc k v)
  case Nil
  then obtain m where n: "n = Suc (Suc m)"
    by (cases n; cases "n - 1") auto
  show ?case
    unfolding n using parse_object_member_last[of m acc k v rest] by simp
next
  case (Cons kv kvs)
  obtain k' v' where kv: "kv = (k', v')" by (cases kv)
  from Cons.prems obtain m where n: "n = Suc (Suc m)" and m: "length kvs + 2 \<le> Suc m"
    by (cases n; cases "n - 1") auto
  let ?tail = "concat (map escape_char k') @ DQUOTE # '': '' @ encode_str v' @ encode_items False kvs
                 @ NEWLINE # CHR ''}'' # rest"
  have shape: "encode_str k @ '': '' @ encode_str v @ encode_items False (kv # kvs) @ NEWLINE # CHR ''}'' # rest
             = encode_str k @ '': '' @ encode_str v
                 @ CHR '','' # NEWLINE # CHR '' '' # CHR '' '' # DQUOTE # ?tail"
    by (simp add: kv encode_str_Cons[of k'])
  have nxt: "DQUOTE # ?tail
             = encode_str k' @ '': '' @ encode_str v' @ encode_items False kvs @ NEWLINE # CHR ''}'' # rest"
    by (simp add: encode_str_Cons[of k'])
  have "parse_object n acc
          (encode_str k @ '': '' @ encode_str v @ encode_items False (kv # kvs) @ NEWLINE # CHR ''}'' # rest)
        = parse_object (Suc m) (dict_set acc k (JStr v)) (DQUOTE # ?tail)"
    unfolding n shape by (rule parse_object_member_more)
  also have "\<dots> = Inr (JDict (fold (\<lambda>(k, v) d. dict_set d k (JStr v)) ((k', v') # kvs)
                              (dict_set acc k (JStr v))), rest)"
    unfolding nxt by (rule Cons.IH[OF m])
  finally show ?case by (simp add: kv)
qed

lemma dict_set_fresh: "k \<notin> fst ` set d \<Longrightarrow> dict_set d k v = d @ [(k, v)]"
  by (induction d) auto

lemma fold_dict_set_distinct:
  "distinct (map fst kvs) \<Longrightarrow> fst ` set acc \<inter> fst ` set kvs = {} \<Longrightarrow>
   fold (\<lambda>(k, v) d. dict_set d k (JStr v)) kvs acc = acc @ map (\<lambda>(k, v). (k, JStr v)) kvs"
proof (induction kvs arbitrary: acc)
  case Nil
  then show ?case by simp
next
  case (Cons kv kvs)
  obtain k v where kv: "kv = (k, v)" by (cases kv)
  have fresh: "k \<notin> fst ` set acc" using Cons.prems(2) by (auto simp: kv)
  have d: "distinct (map fst kvs)" using Cons.prems(1) by simp
  have disj: "fst ` set (acc @ [(k, JStr v)]) \<inter> fst ` set kvs = {}"
    using Cons.prems by (auto simp: kv)
  show ?case
    using Cons.IH[OF d disj] by (simp add: kv dict_set_fresh[OF fresh])
qed

lemma length_encode_items: "length kvs \<le> length (encode_items b kvs)"
  by (induction b kvs rule: encode_items.induct) (simp_all add: encode_str_def)

lemma scan_once_object_open:
  "scan_once (Suc n) (CHR ''{'' # NEWLINE # CHR '' '' # CHR '' '' # DQUOTE # tail)
     = parse_object n [] (DQUOTE # tail)"
proof -
  have ne: "CHR ''{'' \<noteq> DQUOTE" "DQUOTE \<noteq> CHR ''}''"
    by (simp_all add: DQUOTE_def)
  show ?thesis
    by (subst scan_once.simps(2)) (simp add: skip_ws_simps ne del: parse_object.simps)
qed

lemma json_loads_dumps:
  assumes "distinct (map fst dct)"
  shows "json_loads (json_dumps dct) = Inr (str_dict dct)"
proof (cases dct)
  case Nil
  then show ?thesis
    by (simp add: json_loads_def json_dumps_def str_dict_def skip_ws_simps DQUOTE_def eval_nat_numeral)
next
  case (Cons kv kvs)
  obtain k v where kv: "kv = (k, v)" by (cases kv)
  define n where "n = 2 * length (json_dumps dct)"
  let ?tail = "concat (map escape_char k) @ DQUOTE # '': '' @ encode_str v
                 @ encode_items False kvs @ NEWLINE # CHR ''}'' # []"
  have shape: "json_dumps dct = CHR ''{'' # NEWLINE # CHR '' '' # CHR '' '' # DQUOTE # ?tail"
    by (simp add: json_dumps_def Cons kv encode_str_Cons[of k])
  have body: "DQUOTE # ?tail
              = encode_str k @ '': '' @ encode_str v @ encode_items False kvs @ NEWLINE # CHR ''}'' # []"
    by (simp add: encode_str_Cons[of k])
  have fuel: "length kvs + 2 \<le> n"
    unfolding n_def shape using length_encode_items[of kvs False] by simp
  have "scan_once (Suc n) (skip_ws (json_dumps dct)) = parse_object n [] (DQUOTE # ?tail)"
    unfolding shape skip_ws_simps by (rule scan_once_object_open)
  also have "\<dots> = Inr (JDict (fold (\<lambda>(k, v) d. dict_set d k (JStr v)) ((k, v) # kvs) []), [])"
    unfolding body by (rule parse_object_items[OF fuel])
  also have "fold (\<lambda>(k, v) d. dict_set d k (JStr v)) ((k, v) # kvs) [] = map (\<lambda>(k, v). (k, JStr v)) dct"
    using fold_dict_set_distinct[of dct "[]"] assms by (simp add: Cons kv)
  finally show ?thesis
    by (simp add: json_loads_def str_dict_def skip_ws_simps n_def)
qed

section \<open>The fuel of the scanner is never used up\<close>

text \<open>
  Every function of the scanner returns less text than it was given, so that a call with
  more than twice as much fuel as text never ends for lack of fuel.
\<close>

lemma length_skip_ws: "length (skip_ws s) \<le> length s"
  by (simp add: skip_ws_def length_dropWhile_le)

lemma cons_result_Inr:
  "cons_result c r = Inr (s, rest) \<Longrightarrow> \<exists>s'. r = Inr (s', rest)"
  by (auto simp: cons_result_def split: sum.splits)

lemma scanstring_shorter:
  "scanstring cs = Inr (str, rest) \<Longrightarrow> length rest < length cs"
proof (induction cs arbitrary: str rule: scanstring.induct)
  case 1
  then show ?case by simp
next
  case (2 c cs)
  consider (q) "c = DQUOTE" | (b) "c \<noteq> DQUOTE" "c = BACKSLASH"
    | (o) "c \<noteq> DQUOTE" "c \<noteq> BACKSLASH"
    by blast
  then show ?case
  proof cases
    case q
    with "2.prems" show ?thesis by simp
  next
    case b
    with "2.prems" obtain ch r where e: "scan_escape cs = Inr (ch, r)"
      by (cases "scan_escape cs") auto
    with "2.prems" b obtain s' where "scanstring r = Inr (s', rest)"
      by (auto dest!: cons_result_Inr)
    from "2.IH"(1)[OF b e refl this] scan_escape_shorter[OF e]
    show ?thesis by simp
  next
    case o
    with "2.prems" have c: "\<not> ord c < 32" by (auto split: if_splits)
    with "2.prems" o obtain s' where "scanstring cs = Inr (s', rest)"
      by (auto dest!: cons_result_Inr)
    from "2.IH"(2)[OF o c this] show ?thesis by simp
  qed
qed

lemma cons_result_Inl: "cons_result c r = Inl e \<Longrightarrow> r = Inl e"
  by (auto simp: cons_result_def split: sum.splits)

lemma scan_escape_no_recursion_error: "scan_escape cs \<noteq> Inl RecursionError"
  by (auto simp: scan_escape_def split: list.splits if_splits option.splits)

lemma scanstring_no_recursion_error: "scanstring cs \<noteq> Inl RecursionError"
proof (induction cs rule: scanstring.induct)
  case 1
  then show ?case by simp
next
  case (2 c cs)
  show ?case
  proof
    assume bad: "scanstring (c # cs) = Inl RecursionError"
    consider (q) "c = DQUOTE" | (b) "c \<noteq> DQUOTE" "c = BACKSLASH"
      | (o) "c \<noteq> DQUOTE" "c \<noteq> BACKSLASH"
      by blast
    then show False
    proof cases
      case q
      with bad show False by simp
    next
      case b
      with bad scan_escape_no_recursion_error[of cs]
      obtain ch r where e: "scan_escape cs = Inr (ch, r)"
        by (cases "scan_escape cs") auto
      with bad b have "scanstring r = Inl RecursionError"
        by (auto dest!: cons_result_Inl)
      with "2.IH"(1)[OF b e refl] show False by blast
    next
      case o
      with bad have c: "\<not> ord c < 32" by (auto split: if_splits)
      with bad o have "scanstring cs = Inl RecursionError"
        by (auto dest!: cons_result_Inl)
      with "2.IH"(2)[OF o c] show False by blast
    qed
  qed
qed

lemma scan_int_le: "scan_int d ds = (ip, r) \<Longrightarrow> length r \<le> length ds"
  by (auto simp: scan_int_def length_dropWhile_le split: if_splits)

lemma scan_frac_le: "scan_frac r = (fp, r') \<Longrightarrow> length r' \<le> length r"
  by (auto simp: scan_frac_def split: list.splits if_splits
           intro: le_trans[OF length_dropWhile_le])

lemma scan_exp_le: "scan_exp r = (ep, r') \<Longrightarrow> length r' \<le> length r"
  by (auto simp: scan_exp_def Let_def split: list.splits if_splits
           intro: le_trans[OF length_dropWhile_le])

lemma match_number_shorter:
  assumes "match_number s = Inr (v, rest)"
  shows "length rest < length s"
proof -
  obtain sign s1 where ss: "(case s of [] \<Rightarrow> ([], []) | c # cs \<Rightarrow> if c = CHR ''-'' then (''-'', cs) else ([], s)) = (sign, s1)"
    by (cases "(case s of [] \<Rightarrow> ([], []) | c # cs \<Rightarrow> if c = CHR ''-'' then (''-'', cs) else ([]::string, s))")
  then have s1: "length s1 \<le> length s"
    by (auto split: list.splits if_splits)
  from assms ss obtain d ds where c: "s1 = d # ds"
    by (cases s1) (auto simp: match_number_def)
  obtain ip r1 where i: "scan_int d ds = (ip, r1)" by (cases "scan_int d ds")
  obtain fp r2 where f: "scan_frac r1 = (fp, r2)" by (cases "scan_frac r1")
  obtain ep r3 where e: "scan_exp r2 = (ep, r3)" by (cases "scan_exp r2")
  from assms have "rest = r3"
    by (auto simp: match_number_def ss c i f e split: if_splits)
  moreover have "length r3 \<le> length ds"
    using scan_int_le[OF i] scan_frac_le[OF f] scan_exp_le[OF e] by simp
  ultimately show ?thesis using s1 c by simp
qed

lemma skip_ws_Cons_le: "skip_ws s = x # xs \<Longrightarrow> length xs < length s"
  using length_skip_ws[of s] by simp

lemma scan_shorter:
  "scan_once n s = Inr (v, r) \<Longrightarrow> length r < length s"
  "parse_object n acc s = Inr (v, r) \<Longrightarrow> length r < length s"
  "parse_array n acc' s = Inr (v, r) \<Longrightarrow> length r < length s"
proof (induction n s and n acc s and n acc' s arbitrary: v r and v r and v r
       rule: scan_once_parse_object_parse_array.induct)
  case (1 s)
  then show ?case by simp
next
  case (2 n s)
  from "2.prems" obtain c cs where s: "s = c # cs" by (cases s) auto
  consider (str) "c = DQUOTE" | (obj) "c \<noteq> DQUOTE" "c = CHR ''{''"
    | (arr) "c \<noteq> DQUOTE" "c \<noteq> CHR ''{''" "c = CHR ''[''"
    | (other) "c \<noteq> DQUOTE" "c \<noteq> CHR ''{''" "c \<noteq> CHR ''[''"
    by blast
  then show ?case
  proof cases
    case str
    with "2.prems" s obtain str where "scanstring cs = Inr (str, r)"
      by (auto split: sum.splits)
    from scanstring_shorter[OF this] show ?thesis by (simp add: s)
  next
    case obj
    with "2.prems" s obtain x xs where sk: "skip_ws cs = x # xs"
      by (cases "skip_ws cs") auto
    show ?thesis
    proof (cases "x = CHR ''}''")
      case True
      with "2.prems" s obj sk have "r = xs" by simp
      with skip_ws_Cons_le[OF sk] show ?thesis by (simp add: s)
    next
      case False
      with "2.prems" s obj sk have "parse_object n [] (x # xs) = Inr (v, r)" by simp
      from "2.IH"(1)[OF s obj(1) obj(2) sk False this] skip_ws_Cons_le[OF sk]
      show ?thesis by (simp add: s)
    qed
  next
    case arr
    with "2.prems" s obtain x xs where sk: "skip_ws cs = x # xs"
      by (cases "skip_ws cs") auto
    show ?thesis
    proof (cases "x = CHR '']''")
      case True
      with "2.prems" s arr sk have "r = xs" by simp
      with skip_ws_Cons_le[OF sk] show ?thesis by (simp add: s)
    next
      case False
      with "2.prems" s arr sk have "parse_array n [] (x # xs) = Inr (v, r)" by simp
      from "2.IH"(2)[OF s arr(1) arr(2) arr(3) sk False this] skip_ws_Cons_le[OF sk]
      show ?thesis by (simp add: s)
    qed
  next
    case other
    with "2.prems" s have "r = drop 4 s \<or> r = drop 5 s \<or> r = drop 3 s \<or> r = drop 8 s \<or> r = drop 9 s
        \<or> match_number s = Inr (v, r)"
      by (auto split: if_splits)
    then show ?thesis
      using match_number_shorter[of s v r] by (auto simp: s)
  qed
next
  case (3 acc s)
  then show ?case by simp
next
  case (4 n acc s)
  from "4.prems" obtain q cs where s: "s = q # cs" by (cases s) auto
  with "4.prems" have q: "\<not> q \<noteq> DQUOTE" by (auto split: if_splits)
  from "4.prems" s q obtain key r1 where k: "scanstring cs = Inr (key, r1)"
    by (cases "scanstring cs") (auto split: sum.splits)
  from "4.prems" s q k obtain colon r2 where c: "skip_ws r1 = colon # r2"
    by (cases "skip_ws r1") auto
  with "4.prems" s q k have col: "\<not> colon \<noteq> CHR '':''" by (auto split: if_splits)
  from "4.prems" s q k c col obtain v' r3 where val: "scan_once n (skip_ws r2) = Inr (v', r3)"
    by (cases "scan_once n (skip_ws r2)") (auto split: sum.splits)
  from "4.prems" s q k c col val obtain x r4 where e: "skip_ws r3 = x # r4"
    by (cases "skip_ws r3") auto
  have l3: "length r3 < length s"
    using "4.IH"(1)[OF s q k refl c col val] scanstring_shorter[OF k]
      skip_ws_Cons_le[OF c] length_skip_ws[of r2]
    by (simp add: s)
  show ?case
  proof (cases "x = CHR ''}''")
    case True
    with "4.prems" s q k c col val e have "r = r4" by simp
    with skip_ws_Cons_le[OF e] l3 show ?thesis by simp
  next
    case False
    with "4.prems" s q k c col val e have comma: "x = CHR '',''" 
      and rec: "parse_object n (dict_set acc key v') (skip_ws r4) = Inr (v, r)"
      by (auto split: if_splits)
    from "4.IH"(2)[OF s q k refl c col val refl e False comma rec]
      length_skip_ws[of r4] skip_ws_Cons_le[OF e] l3
    show ?thesis by simp
  qed
next
  case (5 acc' s)
  then show ?case by simp
next
  case (6 n acc' s)
  from "6.prems" obtain v' r1 where val: "scan_once n s = Inr (v', r1)"
    by (cases "scan_once n s") (auto split: sum.splits)
  from "6.prems" val obtain x r2 where e: "skip_ws r1 = x # r2"
    by (cases "skip_ws r1") auto
  have l1: "length r1 < length s" using "6.IH"(1)[OF val] .
  show ?case
  proof (cases "x = CHR '']''")
    case True
    with "6.prems" val e have "r = r2" by simp
    with skip_ws_Cons_le[OF e] l1 show ?thesis by simp
  next
    case False
    with "6.prems" val e have comma: "x = CHR '',''"
      and rec: "parse_array n (acc' @ [v']) (skip_ws r2) = Inr (v, r)"
      by (auto split: if_splits)
    from "6.IH"(2)[OF val refl e False comma rec]
      length_skip_ws[of r2] skip_ws_Cons_le[OF e] l1
    show ?thesis by simp
  qed
qed

lemma match_number_no_recursion_error: "match_number s \<noteq> Inl RecursionError"
  by (simp add: match_number_def Let_def case_prod_beta split: list.splits)

lemma scan_fuel:
  "2 * length s < n \<Longrightarrow> scan_once n s \<noteq> Inl RecursionError"
  "2 * length s < n \<Longrightarrow> parse_object n acc s \<noteq> Inl RecursionError"
  "2 * length s + 1 < n \<Longrightarrow> parse_array n acc' s \<noteq> Inl RecursionError"
proof (induction n s and n acc s and n acc' s
       rule: scan_once_parse_object_parse_array.induct)
  case (1 s)
  then show ?case by simp
next
  case (2 n s)
  show ?case
  proof
    assume bad: "scan_once (Suc n) s = Inl RecursionError"
    then obtain c cs where s: "s = c # cs" by (cases s) auto
    consider (str) "c = DQUOTE" | (obj) "c \<noteq> DQUOTE" "c = CHR ''{''"
      | (arr) "c \<noteq> DQUOTE" "c \<noteq> CHR ''{''" "c = CHR ''[''"
      | (other) "c \<noteq> DQUOTE" "c \<noteq> CHR ''{''" "c \<noteq> CHR ''[''"
      by blast
    then show False
    proof cases
      case str
      with bad s have "scanstring cs = Inl RecursionError"
        by (auto split: sum.splits)
      with scanstring_no_recursion_error show False by blast
    next
      case obj
      with bad s obtain x xs where sk: "skip_ws cs = x # xs"
        by (cases "skip_ws cs") auto
      with bad s obj have ne: "x \<noteq> CHR ''}''" and rec: "parse_object n [] (x # xs) = Inl RecursionError"
        by (auto split: if_splits)
      have "2 * length (x # xs) < n"
        using "2.prems" length_skip_ws[of cs] by (simp add: s sk)
      from "2.IH"(1)[OF s obj(1) obj(2) sk ne this] rec show False by blast
    next
      case arr
      with bad s obtain x xs where sk: "skip_ws cs = x # xs"
        by (cases "skip_ws cs") auto
      with bad s arr have ne: "x \<noteq> CHR '']''" and rec: "parse_array n [] (x # xs) = Inl RecursionError"
        by (auto split: if_splits)
      have "2 * length (x # xs) + 1 < n"
        using "2.prems" length_skip_ws[of cs] by (simp add: s sk)
      from "2.IH"(2)[OF s arr(1) arr(2) arr(3) sk ne this] rec show False by blast
    next
      case other
      with bad s have "match_number s = Inl RecursionError"
        by (auto split: if_splits)
      with match_number_no_recursion_error show False by blast
    qed
  qed
next
  case (3 acc s)
  then show ?case by simp
next
  case (4 n acc s)
  show ?case
  proof
    assume bad: "parse_object (Suc n) acc s = Inl RecursionError"
    then obtain q cs where s: "s = q # cs" by (cases s) auto
    with bad have q: "\<not> q \<noteq> DQUOTE" by (auto split: if_splits)
    from bad s q scanstring_no_recursion_error[of cs]
    obtain key r1 where k: "scanstring cs = Inr (key, r1)"
      by (cases "scanstring cs") (auto split: sum.splits)
    from bad s q k obtain colon r2 where c: "skip_ws r1 = colon # r2"
      by (cases "skip_ws r1") auto
    with bad s q k have col: "\<not> colon \<noteq> CHR '':''" by (auto split: if_splits)
    have l2: "length (skip_ws r2) < length cs"
      using scanstring_shorter[OF k] skip_ws_Cons_le[OF c] length_skip_ws[of r2] by simp
    then have f2: "2 * length (skip_ws r2) < n"
      using "4.prems" by (simp add: s)
    from "4.IH"(1)[OF s q k refl c col f2] bad s q k c col
    obtain v' r3 where val: "scan_once n (skip_ws r2) = Inr (v', r3)"
      by (cases "scan_once n (skip_ws r2)") (auto split: sum.splits)
    from bad s q k c col val obtain x r4 where e: "skip_ws r3 = x # r4"
      by (cases "skip_ws r3") auto
    with bad s q k c col val have ne: "x \<noteq> CHR ''}''" and comma: "x = CHR '',''"
      and rec: "parse_object n (dict_set acc key v') (skip_ws r4) = Inl RecursionError"
      by (auto split: if_splits)
    have "length (skip_ws r4) < length cs"
      using scan_shorter(1)[OF val] l2 skip_ws_Cons_le[OF e] length_skip_ws[of r4] by simp
    then have "2 * length (skip_ws r4) < n"
      using "4.prems" by (simp add: s)
    from "4.IH"(2)[OF s q k refl c col val refl e ne comma this] rec show False by blast
  qed
next
  case (5 acc' s)
  then show ?case by simp
next
  case (6 n acc' s)
  show ?case
  proof
    assume bad: "parse_array (Suc n) acc' s = Inl RecursionError"
    have f: "2 * length s < n" using "6.prems" by simp
    from "6.IH"(1)[OF f] bad obtain v' r1 where val: "scan_once n s = Inr (v', r1)"
      by (cases "scan_once n s") (auto split: sum.splits)
    from bad val obtain x r2 where e: "skip_ws r1 = x # r2"
      by (cases "skip_ws r1") auto
    with bad val have ne: "x \<noteq> CHR '']''" and comma: "x = CHR '',''"
      and rec: "parse_array n (acc' @ [v']) (skip_ws r2) = Inl RecursionError"
      by (auto split: if_splits)
    have "length (skip_ws r2) + 1 < length s"
      using scan_shorter(1)[OF val] skip_ws_Cons_le[OF e] length_skip_ws[of r2] by simp
    then have "2 * length (skip_ws r2) + 1 < n"
      using f by simp
    from "6.IH"(2)[OF val refl e ne comma this] rec show False by blast
  qed
qed

lemma json_loads_fuel: "json_loads s \<noteq> Inl RecursionError"
proof -
  have "2 * length (skip_ws s) < Suc (2 * length s)"
    using length_skip_ws[of s] by simp
  from scan_fuel(1)[OF this]
  have ok: "scan_once (Suc (2 * length s)) (skip_ws s) \<noteq> Inl RecursionError" .
  show ?thesis
  proof (cases "scan_once (Suc (2 * length s)) (skip_ws s)")
    case (Inl e)
    with ok have "e \<noteq> RecursionError" by blast
    then show ?thesis unfolding json_loads_def Inl by simp
  next
    case (Inr p)
    then show ?thesis unfolding json_loads_def Inr by (cases p) simp
  qed
qed

section \<open>load_alarm fails soft (C7)\<close>

text \<open>
  C7. Whatever is at the settings file, \<open>load_alarm\<close> returns a value and raises nothing:
  the empty dict when the file is missing, when it cannot be read, and when its text is
  rejected by the JSON decoder with any exception; the decoded value otherwise.
\<close>

theorem load_alarm_fails_soft:
  "(\<exists>v. load_alarm f = Inr v)
   \<and> load_alarm Missing = Inr (JDict [])
   \<and> load_alarm Unreadable = Inr (JDict [])
   \<and> (\<forall>s e. json_loads s = Inl e \<longrightarrow> load_alarm (Text s) = Inr (JDict []))
   \<and> (\<forall>s v. json_loads s = Inr v \<longrightarrow> load_alarm (Text s) = Inr v)"
proof -
  have total: "\<exists>v. load_alarm f = Inr v"
    by (cases f) (auto simp: load_alarm_def file_exists_def read_text_def split: sum.splits)
  have missing: "load_alarm Missing = Inr (JDict [])"
    by (simp add: load_alarm_def file_exists_def)
  have unreadable: "load_alarm Unreadable = Inr (JDict [])"
    by (simp add: load_alarm_def file_exists_def read_text_def)
  have bad: "load_alarm (Text s) = Inr (JDict [])" if "json_loads s = Inl e" for s e
    using that by (simp add: load_alarm_def file_exists_def read_text_def)
  have good: "load_alarm (Text s) = Inr v" if "json_loads s = Inr v" for s v
    using that by (simp add: load_alarm_def file_exists_def read_text_def)
  from total missing unreadable bad good show ?thesis by blast
qed

theorem load_alarm_fails_soft_witness:
  "json_loads ''{hour: 07'' = Inl JSONDecodeError \<and> load_alarm (Text ''{hour: 07'') = Inr (JDict [])"
proof -
  have e: "json_loads ''{hour: 07'' = Inl JSONDecodeError" by code_simp
  from load_alarm_fails_soft[of Missing] e show ?thesis by blast
qed

section \<open>resolve_tone_path (C5)\<close>

lemma first_existing_find:
  "first_existing env ps = map_option (os_abspath env) (find (path_exists env) ps)"
  by (induction ps) simp_all

lemma resolve_tone_path_str:
  "resolve_tone_path env (JStr tp) =
     Inr (if tp = [] then None
          else first_existing env
                 ((if startswith tp (MUSIC_DIR env) then [tp] else [])
                  @ (if os_isabs env tp then [tp] else [])
                  @ [os_join env (MUSIC_DIR env) tp, os_join env (SCRIPT_DIR env) tp]))"
  by (simp add: resolve_tone_path_def Let_def)

text \<open>
  C5, amended. For every string, \<open>resolve_tone_path\<close> returns \<open>os.path.abspath\<close> of the
  first existing candidate, the candidates being, in this order: the value itself when it
  starts with the music directory, the value itself when it is absolute, the value joined to
  the music directory, the value joined to the script directory. It returns \<open>None\<close> exactly
  when the string is empty or no candidate exists. For a name that is neither absolute nor
  prefixed by the music directory and that exists in the music directory, the result is the
  absolute form of the music-directory-joined path.
\<close>

theorem resolve_tone_path_first_existing:
  fixes env tp
  defines "candidates \<equiv>
             (if startswith tp (MUSIC_DIR env) then [tp] else [])
             @ (if os_isabs env tp then [tp] else [])
             @ [os_join env (MUSIC_DIR env) tp, os_join env (SCRIPT_DIR env) tp]"
  shows "resolve_tone_path env (JStr tp) =
           Inr (if tp = [] then None
                else map_option (os_abspath env) (find (path_exists env) candidates))
         \<and> (resolve_tone_path env (JStr tp) = Inr None
              \<longleftrightarrow> tp = [] \<or> (\<nexists>c. c \<in> set candidates \<and> path_exists env c))
         \<and> (tp \<noteq> [] \<and> \<not> os_isabs env tp \<and> \<not> startswith tp (MUSIC_DIR env)
               \<and> path_exists env (os_join env (MUSIC_DIR env) tp)
              \<longrightarrow> resolve_tone_path env (JStr tp)
                    = Inr (Some (os_abspath env (os_join env (MUSIC_DIR env) tp))))"
proof -
  have eq: "resolve_tone_path env (JStr tp) =
           Inr (if tp = [] then None
                else map_option (os_abspath env) (find (path_exists env) candidates))"
    unfolding candidates_def resolve_tone_path_str first_existing_find ..
  have none: "resolve_tone_path env (JStr tp) = Inr None
              \<longleftrightarrow> tp = [] \<or> (\<nexists>c. c \<in> set candidates \<and> path_exists env c)"
    unfolding eq by (auto simp: find_None_iff)
  have bare: "resolve_tone_path env (JStr tp)
                = Inr (Some (os_abspath env (os_join env (MUSIC_DIR env) tp)))"
    if "tp \<noteq> []" "\<not> os_isabs env tp" "\<not> startswith tp (MUSIC_DIR env)"
       "path_exists env (os_join env (MUSIC_DIR env) tp)"
    unfolding eq using that by (simp add: candidates_def)
  from eq none bare show ?thesis by blast
qed

theorem resolve_tone_path_first_existing_witness:
  "resolve_tone_path (posix_env [''/app/music/a.mp3''] 7 5 0) (JStr ''a.mp3'')
     = Inr (Some ''/app/music/a.mp3'')
   \<and> posix_join ''/app/music'' ''a.mp3'' = ''/app/music/a.mp3''
   \<and> resolve_tone_path (posix_env [''/app/music/a.mp3''] 7 5 0) (JStr ''b.mp3'') = Inr None"
proof -
  let ?env = "posix_env [''/app/music/a.mp3''] 7 5 0"
  have pre: "''a.mp3'' \<noteq> [] \<and> \<not> os_isabs ?env ''a.mp3'' \<and> \<not> startswith ''a.mp3'' (MUSIC_DIR ?env)
             \<and> path_exists ?env (os_join ?env (MUSIC_DIR ?env) ''a.mp3'')"
    by code_simp
  have a: "os_abspath ?env (os_join ?env (MUSIC_DIR ?env) ''a.mp3'') = ''/app/music/a.mp3''"
    by code_simp
  have j: "posix_join ''/app/music'' ''a.mp3'' = ''/app/music/a.mp3''"
    by code_simp
  have b: "resolve_tone_path ?env (JStr ''b.mp3'') = Inr None"
    by code_simp
  from resolve_tone_path_first_existing[of ?env "''a.mp3''"] pre a j b show ?thesis
    by simp
qed

text \<open>
  The claim as first stated, that the candidate itself is returned, fails for \<open>./a.mp3\<close>:
  the first existing candidate is \<open>/app/music/./a.mp3\<close> and the result is its normal form
  \<open>/app/music/a.mp3\<close>.
\<close>

theorem resolve_tone_path_returns_abspath_counterexample:
  "find (path_exists (posix_env [''/app/music/a.mp3''] 7 5 0))
     [posix_join ''/app/music'' ''./a.mp3'', posix_join ''/app'' ''./a.mp3'']
     = Some ''/app/music/./a.mp3''
   \<and> \<not> posix_isabs ''./a.mp3'' \<and> \<not> startswith ''./a.mp3'' ''/app/music''
   \<and> resolve_tone_path (posix_env [''/app/music/a.mp3''] 7 5 0) (JStr ''./a.mp3'')
       = Inr (Some ''/app/music/a.mp3'')
   \<and> ''/app/music/a.mp3'' \<noteq> ''/app/music/./a.mp3''"
  by code_simp

section \<open>One round of alarm_checker\<close>

subsection \<open>The test for a stored alarm\<close>

lemma dict_get_cases: "dict_get alarm k = Inl e \<Longrightarrow> e = AttributeError \<and> (\<forall>d. alarm \<noteq> JDict d)"
  by (auto simp: dict_get_def split: json.splits)


lemma alarm_is_set_iff:
  "alarm_is_set alarm = Inr True \<longleftrightarrow>
     (\<exists>d h m a r. alarm = JDict d
        \<and> map_of d ''hour'' = Some h \<and> truthy h \<and> map_of d ''minute'' = Some m \<and> truthy m
        \<and> map_of d ''ampm'' = Some a \<and> truthy a \<and> map_of d ''ringtone'' = Some r \<and> truthy r)"
  by (cases alarm) (auto simp: alarm_is_set_def dict_get_def split: sum.splits if_splits option.splits)





subsection \<open>The phases of a round\<close>















section \<open>A round without a stored alarm changes nothing (C10)\<close>



section \<open>The minute-rollover reset (C3)\<close>





section \<open>When a round starts playback (C1)\<close>




section \<open>A stop that the next round forgets (C2)\<close>

text \<open>
  C2. After \<open>stop_playback\<close> at the displayed time T, no round at T should start playback.
  The code clears the value recorded by the stop whenever the minute key differs from the
  one its loop saw last, and that key is older than the stop in two runs evaluated here.
  First: the alarm is stored for 07:05 AM, the checker's last round was at 07:04, the stop
  comes at 07:05, and the round that follows at 07:05 clears the value and starts playback.
  Second: no alarm is stored, the stop comes at 07:05, an alarm for 07:05 AM is saved, and
  the round that follows at 07:05 starts playback.
\<close>

theorem stop_forgotten_within_minute:
  "STOPPED_THIS_MINUTE
     (run [(posix_env [''/app/music/a.mp3''] 7 4 59, Tick), (posix_env [''/app/music/a.mp3''] 7 5 60, Get_stop)]
        (save_alarm_obj alarm_0705 (initial_state Missing))) = Some ''07:05 AM''
   \<and> snd (alarm_checker (posix_env [''/app/music/a.mp3''] 7 5 61)
           (run [(posix_env [''/app/music/a.mp3''] 7 4 59, Tick), (posix_env [''/app/music/a.mp3''] 7 5 60, Get_stop)]
              (save_alarm_obj alarm_0705 (initial_state Missing))))
       = [Acquire, Wr V_STOPPED_THIS_MINUTE, Release,
          Acquire, Rd V_STOPPED_THIS_MINUTE, Rd V_RINGING, Release,
          Music_load ''/app/music/a.mp3'', Music_play_loop ''/app/music/a.mp3'',
          Acquire, Wr V_RINGING, Release, Print (Msg_ringing ''/app/music/a.mp3''), Sleep 1]
   \<and> STOPPED_THIS_MINUTE
        (run [(posix_env [''/app/music/a.mp3''] 7 5 100, Get_stop),
              (posix_env [''/app/music/a.mp3''] 7 5 101,
               Get_save [(''hour'', [''07'']), (''minute'', [''05'']), (''ampm'', [''AM'']), (''ringtone'', [''a.mp3''])])]
           (initial_state Missing)) = Some ''07:05 AM''
   \<and> snd (alarm_checker (posix_env [''/app/music/a.mp3''] 7 5 102)
        (run [(posix_env [''/app/music/a.mp3''] 7 5 100, Get_stop),
              (posix_env [''/app/music/a.mp3''] 7 5 101,
               Get_save [(''hour'', [''07'']), (''minute'', [''05'']), (''ampm'', [''AM'']), (''ringtone'', [''a.mp3''])])]
           (initial_state Missing)))
       = [Acquire, Wr V_STOPPED_THIS_MINUTE, Release,
          Rd V_RINGING, Print (Msg_status ''07:05 AM'' (JStr ''07:05 AM'') False),
          Acquire, Rd V_STOPPED_THIS_MINUTE, Rd V_RINGING, Release,
          Music_load ''/app/music/a.mp3'', Music_play_loop ''/app/music/a.mp3'',
          Acquire, Wr V_RINGING, Release, Print (Msg_ringing ''/app/music/a.mp3''), Sleep 1]"
  by code_simp

section \<open>Accesses outside the lock (C9)\<close>

text \<open>
  C9. Every read and write of \<open>RINGING\<close> and \<open>STOPPED_THIS_MINUTE\<close> should be made with
  \<open>LOCK\<close> held. \<open>stop_playback\<close> reads \<open>STOPPED_THIS_MINUTE\<close> for its message after it
  has released the lock (line 115), in every state; and a round of the checker that prints
  its status line reads \<open>RINGING\<close> between two locked sections (line 162), as its first
  round with a stored alarm does.
\<close>

theorem shared_state_read_outside_lock:
  "\<not> lock_disciplined False (snd (stop_playback env st))
   \<and> stop_playback (posix_env [] 7 5 100) (initial_state Missing)
       = (\<lparr>RINGING = False, STOPPED_THIS_MINUTE = Some ''07:05 AM'', last_minute_seen = None,
           last_log = 0, alarm_file = Missing\<rparr>,
          [Acquire, Rd V_RINGING, Wr V_RINGING, Wr V_STOPPED_THIS_MINUTE, Release,
           Rd V_STOPPED_THIS_MINUTE, Print (Msg_alarm_stopped (Some ''07:05 AM''))])
   \<and> \<not> lock_disciplined False
         (snd (alarm_checker (posix_env [''/app/music/a.mp3''] 7 5 100)
                (save_alarm_obj alarm_0705 (initial_state Missing))))"
proof -
  have a: "\<not> lock_disciplined False (snd (stop_playback env st))"
    by (simp add: stop_playback_def Let_def)
  have b: "stop_playback (posix_env [] 7 5 100) (initial_state Missing)
       = (\<lparr>RINGING = False, STOPPED_THIS_MINUTE = Some ''07:05 AM'', last_minute_seen = None,
           last_log = 0, alarm_file = Missing\<rparr>,
          [Acquire, Rd V_RINGING, Wr V_RINGING, Wr V_STOPPED_THIS_MINUTE, Release,
           Rd V_STOPPED_THIS_MINUTE, Print (Msg_alarm_stopped (Some ''07:05 AM''))])"
    by code_simp
  have c: "\<not> lock_disciplined False
         (snd (alarm_checker (posix_env [''/app/music/a.mp3''] 7 5 100)
                (save_alarm_obj alarm_0705 (initial_state Missing))))"
    by code_simp
  from a b c show ?thesis by blast
qed

section \<open>Saving, then loading (C8)\<close>

lemma load_alarm_text: "load_alarm (Text s) = Inr (case json_loads s of Inl e \<Rightarrow> JDict [] | Inr v \<Rightarrow> v)"
  by (simp add: load_alarm_def file_exists_def read_text_def split: sum.splits)

lemma load_after_save:
  "distinct (map fst obj) \<Longrightarrow> load_alarm (alarm_file (save_alarm_obj obj st)) = Inr (str_dict obj)"
  by (simp add: save_alarm_obj_def load_alarm_text json_loads_dumps)

text \<open>
  C8. For every dict of strings (a Python dict has no key twice), and so for every record
  with the fields \<open>hour\<close>, \<open>minute\<close>, \<open>ampm\<close>, \<open>time12\<close> and \<open>ringtone\<close> that the save
  path builds, \<open>save_alarm_obj\<close> followed by \<open>load_alarm\<close> returns a dict equal to the
  one saved, whatever the settings file held before.
\<close>

theorem save_then_load_roundtrip:
  assumes "distinct (map fst obj)"
  shows "load_alarm (alarm_file (save_alarm_obj obj st)) = Inr (str_dict obj)
         \<and> load_alarm (alarm_file (save_alarm_obj
                [(''hour'', H), (''minute'', M), (''ampm'', AP), (''time12'', T), (''ringtone'', R)] st))
             = Inr (JDict [(''hour'', JStr H), (''minute'', JStr M), (''ampm'', JStr AP),
                           (''time12'', JStr T), (''ringtone'', JStr R)])"
proof -
  have "distinct (map fst [(''hour'', H), (''minute'', M), (''ampm'', AP), (''time12'', T), (''ringtone'', R)])"
    by simp
  from load_after_save[OF this, of st] load_after_save[OF assms, of st]
  show ?thesis by (simp add: str_dict_def)
qed

theorem save_then_load_roundtrip_witness:
  "distinct (map fst alarm_0705)
   \<and> load_alarm (alarm_file (save_alarm_obj alarm_0705 (initial_state Unreadable)))
       = Inr (JDict [(''hour'', JStr ''07''), (''minute'', JStr ''05''), (''ampm'', JStr ''AM''),
                     (''time12'', JStr ''07:05 AM''), (''ringtone'', JStr ''/app/music/a.mp3'')])"
proof -
  have d: "distinct (map fst alarm_0705)" by code_simp
  have s: "str_dict alarm_0705
           = JDict [(''hour'', JStr ''07''), (''minute'', JStr ''05''), (''ampm'', JStr ''AM''),
                     (''time12'', JStr ''07:05 AM''), (''ringtone'', JStr ''/app/music/a.mp3'')]"
    by code_simp
  from save_then_load_roundtrip[OF d, of "initial_state Unreadable"] d s show ?thesis by simp
qed

section \<open>The /save request (C6)\<close>

lemma resolve_str_total: "\<exists>r. resolve_tone_path env (JStr tp) = Inr r"
  by (simp add: resolve_tone_path_def Let_def)



end
